theory Spec2Isabelle
  imports Complex_Main
begin

section \<open>Numeric values and tensors\<close>

text \<open>
  The entries of a TensorFlow or numpy float tensor are modelled as real numbers extended
  with the two infinities and NaN. Arithmetic on finite entries is exact real arithmetic
  (rounding, overflow and underflow of float32 are left out, and zero carries no sign);
  the special values follow the IEEE rules: NaN is absorbing, \<open>inf - inf\<close>, \<open>0 * inf\<close>,
  \<open>inf / inf\<close> and \<open>0 / 0\<close> are NaN.
\<close>

datatype fval = Fin real | PInf | NInf | NaN

fun fneg :: "fval \<Rightarrow> fval" where
  "fneg (Fin a) = Fin (- a)"
| "fneg PInf = NInf"
| "fneg NInf = PInf"
| "fneg NaN = NaN"

fun fadd :: "fval \<Rightarrow> fval \<Rightarrow> fval" where
  "fadd (Fin a) (Fin b) = Fin (a + b)"
| "fadd NaN _ = NaN"
| "fadd _ NaN = NaN"
| "fadd PInf NInf = NaN"
| "fadd NInf PInf = NaN"
| "fadd PInf _ = PInf"
| "fadd _ PInf = PInf"
| "fadd NInf _ = NInf"
| "fadd _ NInf = NInf"

definition fsub :: "fval \<Rightarrow> fval \<Rightarrow> fval" where
  "fsub a b = fadd a (fneg b)"

fun fmul :: "fval \<Rightarrow> fval \<Rightarrow> fval" where
  "fmul (Fin a) (Fin b) = Fin (a * b)"
| "fmul NaN _ = NaN"
| "fmul _ NaN = NaN"
| "fmul (Fin a) PInf = (if a = 0 then NaN else if 0 < a then PInf else NInf)"
| "fmul (Fin a) NInf = (if a = 0 then NaN else if 0 < a then NInf else PInf)"
| "fmul PInf (Fin b) = (if b = 0 then NaN else if 0 < b then PInf else NInf)"
| "fmul NInf (Fin b) = (if b = 0 then NaN else if 0 < b then NInf else PInf)"
| "fmul PInf PInf = PInf"
| "fmul PInf NInf = NInf"
| "fmul NInf PInf = NInf"
| "fmul NInf NInf = PInf"

fun fdiv :: "fval \<Rightarrow> fval \<Rightarrow> fval" where
  "fdiv (Fin a) (Fin b) =
     (if b = 0 then (if a = 0 then NaN else if 0 < a then PInf else NInf) else Fin (a / b))"
| "fdiv NaN _ = NaN"
| "fdiv _ NaN = NaN"
| "fdiv (Fin a) PInf = Fin 0"
| "fdiv (Fin a) NInf = Fin 0"
| "fdiv PInf (Fin b) = (if 0 \<le> b then PInf else NInf)"
| "fdiv NInf (Fin b) = (if 0 \<le> b then NInf else PInf)"
| "fdiv PInf PInf = NaN"
| "fdiv PInf NInf = NaN"
| "fdiv NInf PInf = NaN"
| "fdiv NInf NInf = NaN"

fun fexp :: "fval \<Rightarrow> fval" where
  "fexp (Fin a) = Fin (exp a)"
| "fexp PInf = PInf"
| "fexp NInf = Fin 0"
| "fexp NaN = NaN"

definition fsquare :: "fval \<Rightarrow> fval" where
  \<comment> \<open>\<open>tf.square\<close>\<close>
  "fsquare a = fmul a a"

fun isnan :: "fval \<Rightarrow> bool" where
  \<comment> \<open>\<open>np.isnan\<close>\<close>
  "isnan NaN = True"
| "isnan _ = False"

fun is_finite :: "fval \<Rightarrow> bool" where
  "is_finite (Fin _) = True"
| "is_finite _ = False"

fun real_of :: "fval \<Rightarrow> real" where
  "real_of (Fin a) = a"
| "real_of _ = 0"

type_synonym vec = "fval list"

definition fsum :: "vec \<Rightarrow> fval" where
  \<comment> \<open>\<open>tf.reduce_sum\<close> of one row\<close>
  "fsum xs = foldr fadd xs (Fin 0)"

text \<open>
  The errors of the model. \<open>ShapeError\<close> stands for the error TensorFlow and numpy raise on
  operands whose shapes cannot be broadcast and on a split into unequal parts;
  \<open>ValueError\<close> for the one Keras raises when \<open>set_weights\<close> or \<open>assign\<close> is given values of
  the wrong shape.
\<close>

datatype error = ShapeError | ValueError | IndexError | AttributeError
  | ZeroDivisionError | AssertionError

text \<open>
  Broadcasting of one axis: two extents are compatible when they are equal or one of them
  is 1; an operand of extent 1 is read at index 0 throughout.
\<close>

definition bdim :: "nat \<Rightarrow> nat \<Rightarrow> nat option" where
  "bdim a b = (if a = b then Some a else if a = 1 then Some b else if b = 1 then Some a else None)"

definition bidx :: "nat \<Rightarrow> nat \<Rightarrow> nat" where
  "bidx n i = (if n = 1 then 0 else i)"

definition bcast1 :: "(fval \<Rightarrow> fval \<Rightarrow> fval) \<Rightarrow> vec \<Rightarrow> vec \<Rightarrow> error + vec" where
  "bcast1 f xs ys =
     (case bdim (length xs) (length ys) of
        None \<Rightarrow> Inl ShapeError
      | Some n \<Rightarrow> Inr (map (\<lambda>i. f (xs ! bidx (length xs) i) (ys ! bidx (length ys) i)) [0..<n]))"

text \<open>
  A rank-2 tensor: a batch of rows, every row of extent \<open>cols\<close> (the last axis).
\<close>

record tensor =
  cols :: nat
  rows :: "vec list"

definition is_tensor :: "tensor \<Rightarrow> bool" where
  "is_tensor t = list_all (\<lambda>r. length r = cols t) (rows t)"

definition all_finite :: "tensor \<Rightarrow> bool" where
  "all_finite t = list_all (list_all is_finite) (rows t)"

definition bcast2 :: "(fval \<Rightarrow> fval \<Rightarrow> fval) \<Rightarrow> tensor \<Rightarrow> tensor \<Rightarrow> error + tensor" where
  "bcast2 f A B =
     (case bdim (length (rows A)) (length (rows B)) of
        None \<Rightarrow> Inl ShapeError
      | Some n \<Rightarrow>
         (case bdim (cols A) (cols B) of
            None \<Rightarrow> Inl ShapeError
          | Some m \<Rightarrow> Inr \<lparr>cols = m, rows =
              map (\<lambda>i. map (\<lambda>j. f (rows A ! bidx (length (rows A)) i ! bidx (cols A) j)
                                   (rows B ! bidx (length (rows B)) i ! bidx (cols B) j)) [0..<m])
                  [0..<n]\<rparr>))"

definition tmap :: "(fval \<Rightarrow> fval) \<Rightarrow> tensor \<Rightarrow> tensor" where
  \<comment> \<open>an element-wise unary operation, or an operation with a scalar\<close>
  "tmap f t = \<lparr>cols = cols t, rows = map (map f) (rows t)\<rparr>"

definition reduce_sum :: "tensor \<Rightarrow> vec" where
  \<comment> \<open>\<open>tf.reduce_sum(t, axis=-1)\<close>\<close>
  "reduce_sum t = map fsum (rows t)"

definition split2 :: "tensor \<Rightarrow> error + tensor \<times> tensor" where
  \<comment> \<open>\<open>tf.split(t, num_or_size_splits=2, axis=-1)\<close>: the last axis must divide evenly\<close>
  "split2 t =
     (if even (cols t)
      then Inr (\<lparr>cols = cols t div 2, rows = map (take (cols t div 2)) (rows t)\<rparr>,
                \<lparr>cols = cols t div 2, rows = map (drop (cols t div 2)) (rows t)\<rparr>)
      else Inl ShapeError)"

section \<open>The Gaussian action distribution\<close>

record gauss =
  mean :: tensor
  logstd :: tensor
  std :: tensor

definition GuassianDistribution :: "tensor \<Rightarrow> error + gauss" where
  "GuassianDistribution logits =
     (case split2 logits of
        Inl e \<Rightarrow> Inl e
      | Inr (m, l) \<Rightarrow> Inr \<lparr>mean = m, logstd = l, std = tmap fexp l\<rparr>)"

definition mode :: "gauss \<Rightarrow> tensor" where
  "mode d = mean d"

definition neglogp :: "gauss \<Rightarrow> tensor \<Rightarrow> error + vec" where
  "neglogp d sample =
     (case bcast2 fsub sample (mean d) of
        Inl e \<Rightarrow> Inl e
      | Inr diff \<Rightarrow>
         (case bcast2 fdiv diff (std d) of
            Inl e \<Rightarrow> Inl e
          | Inr q \<Rightarrow>
             bcast1 fadd
               (map (\<lambda>s. fadd s (fmul (fmul (Fin 0.5) (Fin (ln (2 * pi)))) (Fin (real (cols sample)))))
                  (map (fmul (Fin 0.5)) (reduce_sum (tmap fsquare q))))
               (reduce_sum (logstd d))))"

definition entropy :: "gauss \<Rightarrow> vec" where
  "entropy d = reduce_sum (tmap (\<lambda>l. fadd l (fmul (Fin 0.5) (Fin (ln (2 * pi * exp 1))))) (logstd d))"



section \<open>Networks, optimizers and the parameter ensemble\<close>

text \<open>
  A network is the ordered list of its trainable tensors; a tensor of parameters is kept
  as the flat list of its entries, so its shape is its length. The network module
  (\<open>model.MLPNet\<close>) and the TensorFlow optimizer are not part of the sources: what the
  code needs of them is taken as parameters, collected in a \<open>backend\<close>.
  \<^item> \<open>mlp_shapes input_dim num_hidden_layers num_hidden_units output_dim\<close>: the sizes of the
    trainable tensors of a network of that architecture, in order;
  \<^item> \<open>mlp_init name k j\<close>: the freshly initialised value of entry \<open>j\<close> of tensor \<open>k\<close> of the
    network constructed under \<open>name\<close>;
  \<^item> \<open>mlp_call weights obs\<close>: the forward pass;
  \<^item> \<open>Adam schedule\<close>: a new optimizer for a learning-rate schedule;
  \<^item> \<open>adam_var opt k g v\<close>: the new value of the variable \<open>v\<close>, paired with gradient \<open>g\<close> at
    position \<open>k\<close> of one \<open>apply_gradients\<close> call, and \<open>adam_next\<close> the optimizer after the call.
  Every weight of an \<open>MLPNet\<close> is trainable, so \<open>get_weights\<close> and \<open>trainable_weights\<close> of a
  network list the same tensors. Errors raised inside the optimizer are not modelled.
\<close>

type_synonym weights = "vec list"

type_synonym schedule = "real list"

record 'o backend =
  mlp_shapes :: "nat \<Rightarrow> nat \<Rightarrow> nat \<Rightarrow> nat \<Rightarrow> nat list"
  mlp_init :: "string \<Rightarrow> nat \<Rightarrow> nat \<Rightarrow> fval"
  mlp_call :: "weights \<Rightarrow> tensor \<Rightarrow> tensor"
  Adam :: "schedule \<Rightarrow> 'o"
  adam_var :: "'o \<Rightarrow> nat \<Rightarrow> vec \<Rightarrow> vec \<Rightarrow> vec"
  adam_next :: "'o \<Rightarrow> (vec \<times> vec) list \<Rightarrow> 'o"

definition MLPNet :: "'o backend \<Rightarrow> nat \<Rightarrow> nat \<Rightarrow> nat \<Rightarrow> nat \<Rightarrow> string \<Rightarrow> weights" where
  \<comment> \<open>Modelled from the spec: the class \<open>MLPNet\<close> of the module \<open>model\<close> is missing from the
      sources. A new network is an ordered list of trainable tensors whose shapes are fixed
      by the architecture arguments and whose initial values are its own.\<close>
  "MLPNet B input_dim num_hidden_layers num_hidden_units output_dim name =
     map (\<lambda>(k, n). map (mlp_init B name k) [0..<n])
       (enumerate 0 (mlp_shapes B input_dim num_hidden_layers num_hidden_units output_dim))"

definition net_set_weights :: "weights \<Rightarrow> weights \<Rightarrow> error + weights" where
  \<comment> \<open>Keras \<open>set_weights\<close>: the number of tensors and their shapes must be the network's\<close>
  "net_set_weights cur new = (if map length new = map length cur then Inr new else Inl ValueError)"

definition optimizer_apply_gradients :: "'o backend \<Rightarrow> 'o \<Rightarrow> vec list \<Rightarrow> weights \<Rightarrow> 'o \<times> weights" where
  \<comment> \<open>\<open>optimizer.apply_gradients(zip(grads, weights))\<close>: \<open>zip\<close> stops at the shorter list, so
      only the variables that got a gradient are updated\<close>
  "optimizer_apply_gradients B opt grads ws =
     (adam_next B opt (zip grads ws),
      map (\<lambda>(k, (g, v)). adam_var B opt k g v) (enumerate 0 (zip grads ws)) @ drop (length grads) ws)"

datatype space = Box "nat list" | Discrete nat

datatype log_alpha_arg = auto | Number fval

record args =
  obs_dim :: "nat option"
  act_dim :: "nat option"
  Q_num :: nat
  tau :: fval
  delay_update :: int
  args_log_alpha :: log_alpha_arg
  init_log_alpha :: fval
  policy_lr_schedule :: schedule
  value_lr_schedule :: schedule
  log_alpha_lr_schedule :: schedule

text \<open>
  \<open>log_alpha\<close> is either a trainable scalar variable (a tensor of one entry) or a fixed
  number.
\<close>

datatype log_alpha = Trainable vec | Fixed fval

record 'o ensemble =
  args :: args
  policy :: weights
  policy_target :: weights
  policy_optimizer :: 'o
  Qs :: "weights list"
  Q_targets :: "weights list"
  Q_optimizers :: "'o list"
  log_alpha :: log_alpha
  log_alpha_optimizer :: "'o option"

text \<open>
  \<open>self.models\<close> and \<open>self.optimizers\<close> are tuples of references to the groups above, so
  they are views of the record; writing through index \<open>i\<close> of a view writes the group it
  refers to (\<open>put_model\<close>, \<open>put_optimizer\<close>).
\<close>

datatype model = Net weights | Variable vec

definition models :: "'o ensemble \<Rightarrow> model list" where
  "models e = map Net (Qs e) @ [Net (policy e)] @
     (case log_alpha e of Trainable v \<Rightarrow> [Variable v] | Fixed _ \<Rightarrow> [])"

definition optimizers :: "'o ensemble \<Rightarrow> 'o list" where
  "optimizers e = Q_optimizers e @ [policy_optimizer e] @
     (case log_alpha_optimizer e of Some opt \<Rightarrow> [opt] | None \<Rightarrow> [])"

definition put_model :: "nat \<Rightarrow> weights \<Rightarrow> 'o ensemble \<Rightarrow> 'o ensemble" where
  "put_model i ws e =
     (if i < length (Qs e) then e\<lparr>Qs := (Qs e)[i := ws]\<rparr>
      else if i = length (Qs e) then e\<lparr>policy := ws\<rparr>
      else e\<lparr>log_alpha := Trainable (hd ws)\<rparr>)"

definition put_optimizer :: "nat \<Rightarrow> 'o \<Rightarrow> 'o ensemble \<Rightarrow> 'o ensemble" where
  "put_optimizer i opt e =
     (if i < length (Q_optimizers e) then e\<lparr>Q_optimizers := (Q_optimizers e)[i := opt]\<rparr>
      else if i = length (Q_optimizers e) then e\<lparr>policy_optimizer := opt\<rparr>
      else e\<lparr>log_alpha_optimizer := Some opt\<rparr>)"

fun trainable_weights_of :: "model \<Rightarrow> weights" where
  \<comment> \<open>\<open>model.trainable_weights if hasattr(model, 'trainable_weights') else [model]\<close>\<close>
  "trainable_weights_of (Net ws) = ws"
| "trainable_weights_of (Variable v) = [v]"


subsection \<open>Construction\<close>

definition digit :: "nat \<Rightarrow> char" where
  "digit d = char_of (48 + d)"

function str :: "nat \<Rightarrow> string" where
  "str n = (if n < 10 then [digit n] else str (n div 10) @ [digit (n mod 10)])"
  by pat_completeness auto
termination
  by (relation "measure (\<lambda>n. n)") auto

declare str.simps [simp del]

definition first :: "'a list \<Rightarrow> error + 'a" where
  \<comment> \<open>\<open>shape[0]\<close>\<close>
  "first xs = (case xs of [] \<Rightarrow> Inl IndexError | x # _ \<Rightarrow> Inr x)"

fun copy_targets :: "weights list \<Rightarrow> weights list \<Rightarrow> error + weights list" where
  \<comment> \<open>\<open>for Q, Q_target in zip(Qs, Q_targets): Q_target.set_weights(Q.get_weights())\<close>\<close>
  "copy_targets (q # qs) (t # ts) =
     (case net_set_weights t q of
        Inl err \<Rightarrow> Inl err
      | Inr t' \<Rightarrow> (case copy_targets qs ts of Inl err \<Rightarrow> Inl err | Inr ts' \<Rightarrow> Inr (t' # ts')))"
| "copy_targets [] ts = Inr ts"
| "copy_targets qs [] = Inr []"

definition init :: "'o backend \<Rightarrow> space \<Rightarrow> space \<Rightarrow> args \<Rightarrow> error + 'o ensemble" where
  \<comment> \<open>\<open>PolicyWithQs.__init__\<close>\<close>
  "init B obs_space act_space a =
     (case obs_space of
        Discrete _ \<Rightarrow> Inl AssertionError
      | Box obs_shape \<Rightarrow>
     (case act_space of
        Discrete _ \<Rightarrow> Inl AssertionError
      | Box act_shape \<Rightarrow>
     (case (case obs_dim a of None \<Rightarrow> first obs_shape | Some d \<Rightarrow> Inr d) of
        Inl err \<Rightarrow> Inl err
      | Inr od \<Rightarrow>
     (case (case act_dim a of None \<Rightarrow> first act_shape | Some d \<Rightarrow> Inr d) of
        Inl err \<Rightarrow> Inl err
      | Inr ad \<Rightarrow>
     (case copy_targets
             (map (\<lambda>i. MLPNet B (od + ad) 2 128 1 (''Q'' @ str i)) [0..<Q_num a])
             (map (\<lambda>i. MLPNet B (od + ad) 2 128 1 (''Q_target'' @ str i)) [0..<Q_num a]) of
        Inl err \<Rightarrow> Inl err
      | Inr targets \<Rightarrow>
          Inr \<lparr>args = a,
               policy = MLPNet B od 2 128 (ad * 2) ''policy'',
               policy_target = MLPNet B od 2 128 (ad * 2) ''policy_target'',
               policy_optimizer = Adam B (policy_lr_schedule a),
               Qs = map (\<lambda>i. MLPNet B (od + ad) 2 128 1 (''Q'' @ str i)) [0..<Q_num a],
               Q_targets = targets,
               Q_optimizers = map (\<lambda>_. Adam B (value_lr_schedule a)) [0..<Q_num a],
               log_alpha = (case args_log_alpha a of
                              auto \<Rightarrow> Trainable [init_log_alpha a]
                            | Number v \<Rightarrow> Fixed v),
               log_alpha_optimizer = (case args_log_alpha a of
                              auto \<Rightarrow> Some (Adam B (log_alpha_lr_schedule a))
                            | Number _ \<Rightarrow> None)\<rparr>)))))"

subsection \<open>Snapshot and restore\<close>




subsection \<open>Soft updates of the targets\<close>

definition soft_update :: "fval \<Rightarrow> vec \<Rightarrow> vec \<Rightarrow> error + vec" where
  \<comment> \<open>\<open>tau * source + (1.0 - tau) * target\<close> on two numpy arrays\<close>
  "soft_update t source target =
     bcast1 fadd (map (fmul t) source) (map (fmul (fsub (Fin 1) t)) target)"

fun soft_updates :: "fval \<Rightarrow> (vec \<times> vec) list \<Rightarrow> error + weights" where
  \<comment> \<open>the list comprehension over \<open>zip(source_params, target_params)\<close>\<close>
  "soft_updates t [] = Inr []"
| "soft_updates t ((source, target) # rest) =
     (case soft_update t source target of
        Inl err \<Rightarrow> Inl err
      | Inr w \<Rightarrow> (case soft_updates t rest of Inl err \<Rightarrow> Inl err | Inr ws \<Rightarrow> Inr (w # ws)))"

fun update_targets_loop :: "fval \<Rightarrow> weights list \<Rightarrow> weights list \<Rightarrow> error + weights list" where
  "update_targets_loop t (q # qs) (q_target # ts) =
     (case soft_updates t (zip q q_target) of
        Inl err \<Rightarrow> Inl err
      | Inr new \<Rightarrow>
         (case net_set_weights q_target new of
            Inl err \<Rightarrow> Inl err
          | Inr q_target' \<Rightarrow>
             (case update_targets_loop t qs ts of
                Inl err \<Rightarrow> Inl err
              | Inr ts' \<Rightarrow> Inr (q_target' # ts'))))"
| "update_targets_loop t [] ts = Inr ts"
| "update_targets_loop t qs [] = Inr []"

definition update_Q_targets :: "'o ensemble \<Rightarrow> error + 'o ensemble" where
  "update_Q_targets e =
     (case update_targets_loop (tau (args e)) (Qs e) (Q_targets e) of
        Inl err \<Rightarrow> Inl err
      | Inr ts \<Rightarrow> Inr (e\<lparr>Q_targets := ts\<rparr>))"

definition update_policy_target :: "'o ensemble \<Rightarrow> error + 'o ensemble" where
  "update_policy_target e =
     (case soft_updates (tau (args e)) (zip (policy e) (policy_target e)) of
        Inl err \<Rightarrow> Inl err
      | Inr new \<Rightarrow>
         (case net_set_weights (policy e) new of
            Inl err \<Rightarrow> Inl err
          | Inr p \<Rightarrow> Inr (e\<lparr>policy := p\<rparr>)))"

subsection \<open>Gradient dispatch\<close>

definition py_slice :: "'a list \<Rightarrow> nat \<Rightarrow> nat \<Rightarrow> 'a list" where
  \<comment> \<open>\<open>xs[a:b]\<close> with non-negative bounds: out-of-range bounds are clipped\<close>
  "py_slice xs a b = take (b - a) (drop a xs)"

definition Q_grad_slice :: "vec list \<Rightarrow> nat \<Rightarrow> nat \<Rightarrow> vec list" where
  \<comment> \<open>\<open>grads[i*len_weights:(i+1)*len_weights]\<close>\<close>
  "Q_grad_slice grads i len_weights = py_slice grads (i * len_weights) ((i + 1) * len_weights)"

definition policy_gradi_start :: "'o ensemble \<Rightarrow> error + nat" where
  \<comment> \<open>\<open>len(self.models[0].trainable_weights) * self.args.Q_num\<close>\<close>
  "policy_gradi_start e =
     (case models e of
        [] \<Rightarrow> Inl IndexError
      | Variable _ # _ \<Rightarrow> Inl AttributeError
      | Net w0 # _ \<Rightarrow> Inr (length w0 * Q_num (args e)))"

definition Q_step :: "'o backend \<Rightarrow> vec list \<Rightarrow> nat \<Rightarrow> 'o ensemble \<Rightarrow> error + 'o ensemble" where
  \<comment> \<open>the body of the first loop of \<open>apply_gradients\<close>\<close>
  "Q_step B grads i e =
     (if i < length (models e) \<and> i < length (optimizers e) then
        (case models e ! i of
           Variable _ \<Rightarrow> Inl AttributeError
         | Net weights \<Rightarrow>
            (let len_weights = length weights;
                 (opt, ws) = optimizer_apply_gradients B (optimizers e ! i)
                               (Q_grad_slice grads i len_weights) weights
             in Inr (put_optimizer i opt (put_model i ws e))))
      else Inl IndexError)"

fun Q_loop :: "'o backend \<Rightarrow> vec list \<Rightarrow> nat list \<Rightarrow> 'o ensemble \<Rightarrow> error + 'o ensemble" where
  "Q_loop B grads [] e = Inr e"
| "Q_loop B grads (i # rest) e =
     (case Q_step B grads i e of Inl err \<Rightarrow> Inl err | Inr e' \<Rightarrow> Q_loop B grads rest e')"

fun policy_loop ::
  "'o backend \<Rightarrow> vec list \<Rightarrow> nat \<Rightarrow> nat list \<Rightarrow> 'o ensemble \<Rightarrow> error + 'o ensemble" where
  \<comment> \<open>the second loop, over the policy and \<open>log_alpha\<close>; \<open>gradi_start\<close> is carried along\<close>
  "policy_loop B grads gradi_start [] e = Inr e"
| "policy_loop B grads gradi_start (i # rest) e =
     (if i < length (models e) \<and> i < length (optimizers e) then
        (let weights = trainable_weights_of (models e ! i);
             gradi_end = gradi_start + length weights;
             (opt, ws) = optimizer_apply_gradients B (optimizers e ! i)
                           (py_slice grads gradi_start gradi_end) weights
         in policy_loop B grads gradi_end rest (put_optimizer i opt (put_model i ws e)))
      else Inl IndexError)"

definition apply_gradients ::
  "'o backend \<Rightarrow> int \<Rightarrow> vec list \<Rightarrow> 'o ensemble \<Rightarrow> error + 'o ensemble" where
  "apply_gradients B iteration grads e =
     (case Q_loop B grads [0..<Q_num (args e)] e of
        Inl err \<Rightarrow> Inl err
      | Inr e1 \<Rightarrow>
         (if delay_update (args e1) = 0 then Inl ZeroDivisionError
          else if iteration mod delay_update (args e1) = 0 then
            (case policy_gradi_start e1 of
               Inl err \<Rightarrow> Inl err
             | Inr gradi_start \<Rightarrow>
                (case policy_loop B grads gradi_start [Q_num (args e1)..<length (models e1)] e1 of
                   Inl err \<Rightarrow> Inl err
                 | Inr e2 \<Rightarrow>
                    (case update_policy_target e2 of
                       Inl err \<Rightarrow> Inl err
                     | Inr e3 \<Rightarrow> update_Q_targets e3)))
          else Inr e1))"

subsection \<open>Log-probabilities\<close>

definition compute_logits :: "'o backend \<Rightarrow> 'o ensemble \<Rightarrow> tensor \<Rightarrow> tensor" where
  "compute_logits B e obs = mlp_call B (policy e) obs"

definition compute_neglogp :: "'o backend \<Rightarrow> 'o ensemble \<Rightarrow> tensor \<Rightarrow> tensor \<Rightarrow> error + vec" where
  \<comment> \<open>\<open>PolicyWithQs.compute_neglogp\<close>\<close>
  "compute_neglogp B e obs act =
     (case GuassianDistribution (mlp_call B (policy e) obs) of
        Inl err \<Rightarrow> Inl err
      | Inr act_dist \<Rightarrow> neglogp act_dist act)"

text \<open>
  The sibling class \<open>PolicyWithValue\<close>, for a continuous action space (its
  \<open>act_dist_cls\<close> is then the Gaussian distribution): only its policy network matters for
  \<open>compute_neglogp\<close>.
\<close>

definition PolicyWithValue_compute_neglogp ::
  "'o backend \<Rightarrow> weights \<Rightarrow> tensor \<Rightarrow> tensor \<Rightarrow> error + vec" where
  "PolicyWithValue_compute_neglogp B pv_policy obs action =
     (let logits = mlp_call B pv_policy obs in
      case rows logits of
        [] \<Rightarrow> Inl IndexError
      | r # _ \<Rightarrow>
         (case r of
            [] \<Rightarrow> Inl IndexError
          | v # _ \<Rightarrow>
             (if isnan v then Inl AssertionError
              else (case GuassianDistribution logits of
                      Inl err \<Rightarrow> Inl err
                    | Inr act_dist \<Rightarrow> neglogp act_dist action))))"

section \<open>Specification-side notions, invariants and an example instance\<close>

text \<open>
  Two definitions follow the words of the specification, to be compared with what the code
  computes: \<open>spec_polyak\<close>, the soft update \<open>tau * source + (1 - tau) * target\<close> taken
  element by element, and \<open>spec_neglogp\<close>, the formula
  \<open>0.5 * sum(((x - mean) / std)^2) + 0.5 * D * ln(2 pi) + sum(log_std)\<close> for one batch
  element. \<open>gaussian_pdf\<close> is the density of a normal distribution.

  \<open>well_formed\<close> and \<open>shapes_ok\<close> are the invariants of an ensemble: they hold after
  construction (\<open>init_invariants\<close>) and \<open>apply_gradients\<close> keeps them
  (\<open>apply_gradients_preserves_invariants\<close>). \<open>shape_preserving\<close> says that an optimizer
  step keeps the shape of a variable, and \<open>same_architecture\<close> that two ensembles have
  groups of the same shapes.

  The remaining definitions name terms of the proofs: \<open>tab\<close> builds a tensor from its
  entries, \<open>kl_elem\<close> is one summand of the KL divergence of a distribution to itself,
  \<open>Q_new\<close>, \<open>Q_updated\<close> and \<open>Q_optimizers_updated\<close> are the results of the first loop of
  \<open>apply_gradients\<close>, and \<open>constructed\<close> is the record the constructor returns. The
  example instance is a small ensemble on which the model can be run: its network outputs,
  for every observation, the first entry of each of its parameter tensors, and its
  optimizer subtracts the sum of the gradient's entries from every entry of the variable.
\<close>

definition spec_polyak :: "fval \<Rightarrow> vec \<Rightarrow> vec \<Rightarrow> vec" where
  "spec_polyak t source target = map2 (\<lambda>s x. fadd (fmul t s) (fmul (fsub (Fin 1) t) x)) source target"

definition spec_neglogp :: "vec \<Rightarrow> vec \<Rightarrow> vec \<Rightarrow> fval" where
  "spec_neglogp mean_row log_std_row x =
     fadd (fadd (fmul (Fin 0.5)
                   (fsum (map (\<lambda>j. fsquare (fdiv (fsub (x ! j) (mean_row ! j)) (fexp (log_std_row ! j))))
                      [0..<length mean_row])))
                (Fin (0.5 * real (length mean_row) * ln (2 * pi))))
          (fsum log_std_row)"

definition gaussian_pdf :: "real \<Rightarrow> real \<Rightarrow> real \<Rightarrow> real" where
  "gaussian_pdf mu sigma x = exp (- (x - mu)\<^sup>2 / (2 * sigma\<^sup>2)) / (sigma * sqrt (2 * pi))"

definition same_shapes :: "weights \<Rightarrow> weights \<Rightarrow> bool" where
  "same_shapes ws vs = (map length ws = map length vs)"

definition shape_preserving :: "'o backend \<Rightarrow> bool" where
  "shape_preserving B = (\<forall>opt k g v. length (adam_var B opt k g v) = length v)"

definition well_formed :: "'o ensemble \<Rightarrow> bool" where
  "well_formed e = (length (Qs e) = Q_num (args e) \<and> length (Q_optimizers e) = Q_num (args e) \<and>
           (case log_alpha e of Trainable _ \<Rightarrow> log_alpha_optimizer e \<noteq> None | Fixed _ \<Rightarrow> True))"

definition shapes_ok :: "'o ensemble \<Rightarrow> bool" where
  "shapes_ok e = (same_shapes (policy_target e) (policy e) \<and>
                  list_all2 same_shapes (Q_targets e) (Qs e))"


definition tab :: "nat \<Rightarrow> nat \<Rightarrow> (nat \<Rightarrow> nat \<Rightarrow> fval) \<Rightarrow> tensor" where
  "tab n m g = \<lparr>cols = m, rows = map (\<lambda>i. map (g i) [0..<m]) [0..<n]\<rparr>"


definition Q_new :: "'o backend \<Rightarrow> vec list \<Rightarrow> 'o ensemble \<Rightarrow> nat \<Rightarrow> 'o \<times> weights" where
  "Q_new B grads e i =
     optimizer_apply_gradients B (Q_optimizers e ! i)
       (Q_grad_slice grads i (length (Qs e ! i))) (Qs e ! i)"

definition Q_updated :: "'o backend \<Rightarrow> vec list \<Rightarrow> 'o ensemble \<Rightarrow> weights list" where
  "Q_updated B grads e = map (\<lambda>i. snd (Q_new B grads e i)) [0..<length (Qs e)]"

definition Q_optimizers_updated :: "'o backend \<Rightarrow> vec list \<Rightarrow> 'o ensemble \<Rightarrow> 'o list" where
  "Q_optimizers_updated B grads e = map (\<lambda>i. fst (Q_new B grads e i)) [0..<length (Qs e)]"

definition constructed :: "'o backend \<Rightarrow> nat \<Rightarrow> nat \<Rightarrow> args \<Rightarrow> 'o ensemble" where
  "constructed B od ad a =
          \<lparr>args = a,
           policy = MLPNet B od 2 128 (ad * 2) ''policy'',
           policy_target = MLPNet B od 2 128 (ad * 2) ''policy_target'',
           policy_optimizer = Adam B (policy_lr_schedule a),
           Qs = map (\<lambda>i. MLPNet B (od + ad) 2 128 1 (''Q'' @ str i)) [0..<Q_num a],
           Q_targets = map (\<lambda>i. MLPNet B (od + ad) 2 128 1 (''Q'' @ str i)) [0..<Q_num a],
           Q_optimizers = map (\<lambda>_. Adam B (value_lr_schedule a)) [0..<Q_num a],
           log_alpha = (case args_log_alpha a of
                          auto \<Rightarrow> Trainable [init_log_alpha a]
                        | Number v \<Rightarrow> Fixed v),
           log_alpha_optimizer = (case args_log_alpha a of
                          auto \<Rightarrow> Some (Adam B (log_alpha_lr_schedule a))
                        | Number _ \<Rightarrow> None)\<rparr>"

definition demo_backend :: "unit backend" where
  "demo_backend =
     \<lparr>mlp_shapes = (\<lambda>input_dim layers units output_dim. [1, 1]),
      mlp_init = (\<lambda>name k j. if name = ''policy_target'' then Fin 1 else Fin 0),
      mlp_call = (\<lambda>ws obs. \<lparr>cols = length ws, rows = map (\<lambda>r. map hd ws) (rows obs)\<rparr>),
      Adam = (\<lambda>schedule. ()),
      adam_var = (\<lambda>opt k g v. map (\<lambda>x. fsub x (fsum g)) v),
      adam_next = (\<lambda>opt gvs. opt)\<rparr>"

definition demo_args :: args where
  "demo_args =
     \<lparr>obs_dim = Some 1, act_dim = Some 1, Q_num = 1, tau = Fin (1 / 2), delay_update = 2,
      args_log_alpha = Number (Fin 0), init_log_alpha = Fin 0,
      policy_lr_schedule = [], value_lr_schedule = [], log_alpha_lr_schedule = []\<rparr>"

definition demo_ensemble :: "unit ensemble" where
  "demo_ensemble =
     \<lparr>args = demo_args,
      policy = [[Fin 4]], policy_target = [[Fin 0]], policy_optimizer = (),
      Qs = [[[Fin 1], [Fin 2]]], Q_targets = [[[Fin 1], [Fin 4]]], Q_optimizers = [()],
      log_alpha = Fixed (Fin 0), log_alpha_optimizer = None\<rparr>"

section \<open>Auxiliary lemmas\<close>

subsection \<open>Tensors given by their entries\<close>

lemma bidx_id: "i < n \<Longrightarrow> bidx n i = i"
  by (auto simp: bidx_def)

lemma bdim_same: "bdim n n = Some n"
  by (simp add: bdim_def)

lemma is_finite_conv: "is_finite a \<longleftrightarrow> a = Fin (real_of a)"
  by (cases a) auto

lemma fsum_Nil: "fsum [] = Fin 0" by (simp add: fsum_def)

lemma fsum_Cons: "fsum (x # xs) = fadd x (fsum xs)" by (simp add: fsum_def)

lemma fsum_Fin: "fsum (map (\<lambda>j. Fin (f j)) js) = Fin (sum_list (map f js))"
  by (induction js) (simp_all add: fsum_Nil fsum_Cons)

lemma tab_sel: "cols (tab n m g) = m" "length (rows (tab n m g)) = n"
  "i < n \<Longrightarrow> rows (tab n m g) ! i = map (g i) [0..<m]"
  by (simp_all add: tab_def)

lemma tensor_as_tab:
  assumes "is_tensor t"
  shows "t = tab (length (rows t)) (cols t) (\<lambda>i j. rows t ! i ! j)"
proof -
  have "rows t = map (\<lambda>i. map (\<lambda>j. rows t ! i ! j) [0..<cols t]) [0..<length (rows t)]"
  proof (rule nth_equalityI)
    show "length (rows t) = length (map (\<lambda>i. map (\<lambda>j. rows t ! i ! j) [0..<cols t]) [0..<length (rows t)])"
      by simp
  next
    fix i assume i: "i < length (rows t)"
    then have "length (rows t ! i) = cols t"
      using assms by (simp add: is_tensor_def list_all_length)
    then have "rows t ! i = map (\<lambda>j. rows t ! i ! j) [0..<cols t]"
      by (metis map_nth)
    with i show "rows t ! i = map (\<lambda>i. map (\<lambda>j. rows t ! i ! j) [0..<cols t]) [0..<length (rows t)] ! i"
      by simp
  qed
  then show ?thesis
    by (simp add: tab_def)
qed

lemma tab_cong:
  assumes "\<And>i j. i < n \<Longrightarrow> j < m \<Longrightarrow> g i j = h i j"
  shows "tab n m g = tab n m h"
  using assms by (simp add: tab_def)

lemma bcast2_tab:
  "bcast2 f (tab n m g) (tab n m h) = Inr (tab n m (\<lambda>i j. f (g i j) (h i j)))"
  by (simp add: bcast2_def bdim_same bidx_id tab_def)

lemma tmap_tab: "tmap f (tab n m g) = tab n m (\<lambda>i j. f (g i j))"
  by (simp add: tmap_def tab_def comp_def)

lemma reduce_sum_tab: "reduce_sum (tab n m g) = map (\<lambda>i. fsum (map (g i) [0..<m])) [0..<n]"
  by (simp add: reduce_sum_def tab_def comp_def)

lemma bcast1_same_length:
  assumes "length xs = length ys"
  shows "bcast1 f xs ys = Inr (map (\<lambda>i. f (xs ! i) (ys ! i)) [0..<length xs])"
  using assms by (simp add: bcast1_def bdim_same bidx_id)

lemma upt_shift: "[D..<2 * D] = map (\<lambda>j. D + j) [0..<D]"
proof -
  have "map (\<lambda>j. j + D) [0..<D] = [D..<D + D]"
    by (rule map_add_upt)
  then show ?thesis
    by (simp add: add.commute mult_2)
qed

lemma split2_tab:
  "split2 (tab n (2 * D) g) = Inr (tab n D g, tab n D (\<lambda>i j. g i (D + j)))"
  by (simp add: split2_def tab_def take_map drop_map upt_shift comp_def)



lemma neglogp_tab:
  "neglogp \<lparr>mean = tab n D m, logstd = tab n D l, std = tmap fexp (tab n D l)\<rparr> (tab n D x)
     = Inr (map (\<lambda>i. fadd (fadd (fmul (Fin 0.5)
                (fsum (map (\<lambda>j. fsquare (fdiv (fsub (x i j) (m i j)) (fexp (l i j)))) [0..<D])))
              (Fin (0.5 * real D * ln (2 * pi))))
            (fsum (map (l i) [0..<D]))) [0..<n])"
  by (simp add: neglogp_def bcast2_tab tmap_tab reduce_sum_tab bcast1_same_length tab_sel(1) mult.commute)

lemma neglogp_formula_tab:
  "spec_neglogp (map (m i) [0..<D]) (map (l i) [0..<D]) (map (x i) [0..<D])
     = fadd (fadd (fmul (Fin 0.5)
                (fsum (map (\<lambda>j. fsquare (fdiv (fsub (x i j) (m i j)) (fexp (l i j)))) [0..<D])))
              (Fin (0.5 * real D * ln (2 * pi))))
            (fsum (map (l i) [0..<D]))"
proof -
  have eq: "map (\<lambda>j. fsquare (fdiv (fsub (map (x i) [0..<D] ! j) (map (m i) [0..<D] ! j))
                                (fexp (map (l i) [0..<D] ! j)))) [0..<D]
      = map (\<lambda>j. fsquare (fdiv (fsub (x i j) (m i j)) (fexp (l i j)))) [0..<D]"
    by (rule map_cong) simp_all
  show ?thesis
    by (simp only: spec_neglogp_def length_map length_upt diff_zero eq)
qed

subsection \<open>The Gaussian density\<close>

lemma ln_gaussian_pdf:
  "- ln (gaussian_pdf mu (exp l) x) = 0.5 * ((x - mu) / exp l)\<^sup>2 + 0.5 * ln (2 * pi) + l"
proof -
  have pos: "0 < exp l * sqrt (2 * pi)" by simp
  have "ln (gaussian_pdf mu (exp l) x)
      = ln (exp (- (x - mu)\<^sup>2 / (2 * (exp l)\<^sup>2))) - ln (exp l * sqrt (2 * pi))"
    unfolding gaussian_pdf_def by (rule ln_divide_pos) (simp_all)
  also have "\<dots> = - (x - mu)\<^sup>2 / (2 * (exp l)\<^sup>2) - (l + ln (sqrt (2 * pi)))"
    by (simp add: ln_mult_pos)
  also have "ln (sqrt (2 * pi)) = 0.5 * ln (2 * pi)"
    by (simp add: ln_sqrt)
  finally show ?thesis
    by (simp add: power_divide)
qed

lemma gaussian_pdf_pos: "0 < gaussian_pdf mu (exp l) x"
  by (simp add: gaussian_pdf_def)

lemma ln_prod_gaussian:
  "- ln (\<Prod>j<D. gaussian_pdf (mu j) (exp (l j)) (x j))
     = 0.5 * (\<Sum>j<D. ((x j - mu j) / exp (l j))\<^sup>2) + 0.5 * real D * ln (2 * pi) + (\<Sum>j<D. l j)"
proof -
  have "ln (\<Prod>j<D. gaussian_pdf (mu j) (exp (l j)) (x j))
      = (\<Sum>j<D. ln (gaussian_pdf (mu j) (exp (l j)) (x j)))"
    by (rule ln_prod) (simp_all add: less_imp_neq [OF gaussian_pdf_pos, symmetric])
  then have "- ln (\<Prod>j<D. gaussian_pdf (mu j) (exp (l j)) (x j))
      = (\<Sum>j<D. - ln (gaussian_pdf (mu j) (exp (l j)) (x j)))"
    by (simp add: sum_negf)
  also have "\<dots> = (\<Sum>j<D. 0.5 * ((x j - mu j) / exp (l j))\<^sup>2 + 0.5 * ln (2 * pi) + l j)"
    by (simp only: ln_gaussian_pdf)
  also have "\<dots> = 0.5 * (\<Sum>j<D. ((x j - mu j) / exp (l j))\<^sup>2) + 0.5 * real D * ln (2 * pi) + (\<Sum>j<D. l j)"
    by (simp add: sum.distrib sum_distrib_left)
  finally show ?thesis .
qed

lemma sum_list_upt: "sum_list (map f [0..<D]) = (\<Sum>j<D. f j)" for f :: "nat \<Rightarrow> real"
  by (simp add: interv_sum_list_conv_sum_set_nat atLeast0LessThan)

lemma formula_finite:
  "fadd (fadd (fmul (Fin 0.5)
           (fsum (map (\<lambda>j. fsquare (fdiv (fsub (Fin (x j)) (Fin (m j))) (fexp (Fin (l j))))) [0..<D])))
         (Fin (0.5 * real D * ln (2 * pi))))
      (fsum (map (\<lambda>j. Fin (l j)) [0..<D]))
   = Fin (- ln (\<Prod>j<D. gaussian_pdf (m j) (exp (l j)) (x j)))"
  by (simp add: fsub_def fsquare_def fsum_Fin sum_list_upt ln_prod_gaussian power2_eq_square)

lemma all_finite_nth:
  assumes "all_finite t" "is_tensor t" "i < length (rows t)" "j < cols t"
  shows "rows t ! i ! j = Fin (real_of (rows t ! i ! j))"
proof -
  from assms have "list_all is_finite (rows t ! i)" "length (rows t ! i) = cols t"
    by (simp_all add: all_finite_def is_tensor_def list_all_length)
  with assms(4) have "is_finite (rows t ! i ! j)"
    by (simp add: list_all_length)
  then show ?thesis
    by (simp add: is_finite_conv [symmetric])
qed

subsection \<open>Soft updates\<close>

lemma soft_update_same_length:
  "length s = length x \<Longrightarrow> soft_update t s x = Inr (spec_polyak t s x)"
proof -
  assume len: "length s = length x"
  have "map (\<lambda>i. fadd (map (fmul t) s ! i) (map (fmul (fsub (Fin 1) t)) x ! i)) [0..<length s]
      = spec_polyak t s x"
    by (rule nth_equalityI) (simp_all add: spec_polyak_def len)
  then show ?thesis
    by (simp add: soft_update_def bcast1_same_length len)
qed

lemma length_polyak: "length (spec_polyak t s x) = min (length s) (length x)"
  by (simp add: spec_polyak_def)

lemma soft_updates_same_shapes:
  "same_shapes src tgt \<Longrightarrow> soft_updates t (zip src tgt) = Inr (map2 (spec_polyak t) src tgt)"
proof (induction src arbitrary: tgt)
  case Nil
  then show ?case by simp
next
  case (Cons s src)
  then obtain x tgt' where tgt: "tgt = x # tgt'"
    by (cases tgt) (auto simp: same_shapes_def)
  with Cons.prems have "length s = length x" "same_shapes src tgt'"
    by (simp_all add: same_shapes_def)
  with Cons.IH [of tgt'] show ?case
    by (simp add: tgt soft_update_same_length)
qed

lemma same_shapes_polyak:
  "same_shapes src tgt \<Longrightarrow> same_shapes (map2 (spec_polyak t) src tgt) src"
proof (induction src arbitrary: tgt)
  case Nil
  then show ?case by (simp add: same_shapes_def)
next
  case (Cons s src)
  then obtain x tgt' where tgt: "tgt = x # tgt'"
    by (cases tgt) (auto simp: same_shapes_def)
  with Cons.prems have "length s = length x" "same_shapes src tgt'"
    by (simp_all add: same_shapes_def)
  with Cons.IH [of tgt'] show ?case
    by (simp add: tgt same_shapes_def length_polyak)
qed

lemma same_shapes_sym: "same_shapes a b \<Longrightarrow> same_shapes b a"
  by (simp add: same_shapes_def)

lemma same_shapes_trans: "same_shapes a b \<Longrightarrow> same_shapes b c \<Longrightarrow> same_shapes a c"
  by (simp add: same_shapes_def)

lemma net_set_weights_ok: "same_shapes new cur \<Longrightarrow> net_set_weights cur new = Inr new"
  by (simp add: net_set_weights_def same_shapes_def)

lemma update_policy_target_result:
  assumes "same_shapes (policy_target e) (policy e)"
  shows "update_policy_target e =
           Inr (e\<lparr>policy := map2 (spec_polyak (tau (args e))) (policy e) (policy_target e)\<rparr>)"
proof -
  have s: "same_shapes (policy e) (policy_target e)"
    using assms by (rule same_shapes_sym)
  show ?thesis
    by (simp add: update_policy_target_def soft_updates_same_shapes [OF s]
        net_set_weights_ok [OF same_shapes_polyak [OF s]])
qed

lemma update_targets_loop_result:
  assumes "list_all2 same_shapes ts qs"
  shows "update_targets_loop t qs ts = Inr (map2 (\<lambda>q x. map2 (spec_polyak t) q x) qs ts)"
  using assms
proof (induction ts qs rule: list_all2_induct)
  case Nil
  then show ?case by simp
next
  case (Cons x ts q qs)
  have s: "same_shapes q x"
    using Cons.hyps(1) by (rule same_shapes_sym)
  have "same_shapes (map2 (spec_polyak t) q x) x"
    using same_shapes_polyak [OF s] s by (rule same_shapes_trans)
  then show ?case
    by (simp add: soft_updates_same_shapes [OF s] net_set_weights_ok Cons.IH)
qed

lemma update_Q_targets_result:
  assumes "list_all2 same_shapes (Q_targets e) (Qs e)"
  shows "update_Q_targets e =
           Inr (e\<lparr>Q_targets := map2 (\<lambda>q x. map2 (spec_polyak (tau (args e))) q x) (Qs e) (Q_targets e)\<rparr>)"
  by (simp add: update_Q_targets_def update_targets_loop_result [OF assms])

subsection \<open>Gradient dispatch\<close>

lemma length_models:
  "length (models e) = length (Qs e) + 1 + (case log_alpha e of Trainable _ \<Rightarrow> 1 | Fixed _ \<Rightarrow> 0)"
  by (simp add: models_def split: log_alpha.split)

lemma length_optimizers:
  "length (optimizers e) =
     length (Q_optimizers e) + 1 + (case log_alpha_optimizer e of Some _ \<Rightarrow> 1 | None \<Rightarrow> 0)"
  by (simp add: optimizers_def split: option.split)

lemma models_nth_Q: "i < length (Qs e) \<Longrightarrow> models e ! i = Net (Qs e ! i)"
  by (simp add: models_def nth_append)

lemma models_nth_policy: "models e ! length (Qs e) = Net (policy e)"
  by (simp add: models_def nth_append)

lemma optimizers_nth_Q: "i < length (Q_optimizers e) \<Longrightarrow> optimizers e ! i = Q_optimizers e ! i"
  by (simp add: optimizers_def nth_append)

lemma optimizers_nth_policy: "optimizers e ! length (Q_optimizers e) = policy_optimizer e"
  by (simp add: optimizers_def nth_append)

lemma Q_step_result:
  assumes "i < length (Qs e)" "length (Q_optimizers e) = length (Qs e)"
  shows "Q_step B grads i e =
           Inr (e\<lparr>Qs := (Qs e)[i := snd (Q_new B grads e i)],
                  Q_optimizers := (Q_optimizers e)[i := fst (Q_new B grads e i)]\<rparr>)"
  using assms
  by (simp add: Q_step_def length_models length_optimizers models_nth_Q optimizers_nth_Q
      Q_new_def put_model_def put_optimizer_def split_def Let_def)

lemma Q_loop_result:
  assumes "\<forall>i\<in>set js. i < length (Qs e)" "length (Q_optimizers e) = length (Qs e)" "distinct js"
  shows "\<exists>qs os. Q_loop B grads js e = Inr (e\<lparr>Qs := qs, Q_optimizers := os\<rparr>) \<and>
           length qs = length (Qs e) \<and> length os = length (Qs e) \<and>
           (\<forall>i<length (Qs e). qs ! i = (if i \<in> set js then snd (Q_new B grads e i) else Qs e ! i)) \<and>
           (\<forall>i<length (Qs e). os ! i = (if i \<in> set js then fst (Q_new B grads e i) else Q_optimizers e ! i))"
  using assms
proof (induction js arbitrary: e)
  case Nil
  show ?case
    by (rule exI [of _ "Qs e"], rule exI [of _ "Q_optimizers e"]) (simp add: Nil.prems(2))
next
  case (Cons j js)
  define e1 where "e1 = e\<lparr>Qs := (Qs e)[j := snd (Q_new B grads e j)],
                          Q_optimizers := (Q_optimizers e)[j := fst (Q_new B grads e j)]\<rparr>"
  have j: "j < length (Qs e)" and jn: "j \<notin> set js" and djs: "distinct js"
    using Cons.prems by simp_all
  have step: "Q_step B grads j e = Inr e1"
    unfolding e1_def using j Cons.prems(2) by (rule Q_step_result)
  have len1: "length (Qs e1) = length (Qs e)" "length (Q_optimizers e1) = length (Qs e1)"
    using Cons.prems(2) by (simp_all add: e1_def)
  have "\<forall>i\<in>set js. i < length (Qs e1)"
    using Cons.prems(1) len1 by simp
  from Cons.IH [OF this len1(2) djs]
  obtain qs os where r: "Q_loop B grads js e1 = Inr (e1\<lparr>Qs := qs, Q_optimizers := os\<rparr>)"
    and lq: "length qs = length (Qs e1)" and lo: "length os = length (Qs e1)"
    and q: "\<forall>i<length (Qs e1). qs ! i = (if i \<in> set js then snd (Q_new B grads e1 i) else Qs e1 ! i)"
    and o: "\<forall>i<length (Qs e1). os ! i = (if i \<in> set js then fst (Q_new B grads e1 i) else Q_optimizers e1 ! i)"
    by blast
  have same: "Q_new B grads e1 i = Q_new B grads e i" if "i \<noteq> j" for i
    using that by (simp add: Q_new_def e1_def)
  have e1e: "e1\<lparr>Qs := qs, Q_optimizers := os\<rparr> = e\<lparr>Qs := qs, Q_optimizers := os\<rparr>"
    by (simp add: e1_def)
  have A: "Q_loop B grads (j # js) e = Inr (e\<lparr>Qs := qs, Q_optimizers := os\<rparr>)"
    by (simp add: step r e1e)
  have B1: "\<forall>i<length (Qs e). qs ! i = (if i \<in> set (j # js) then snd (Q_new B grads e i) else Qs e ! i)"
  proof (intro allI impI)
    fix i assume i: "i < length (Qs e)"
    show "qs ! i = (if i \<in> set (j # js) then snd (Q_new B grads e i) else Qs e ! i)"
    proof (cases "i = j")
      case True
      with q i len1 jn have "qs ! i = Qs e1 ! j" by simp
      with True j show ?thesis by (simp add: e1_def)
    next
      case False
      with q i len1 same [OF False] show ?thesis by (simp add: e1_def)
    qed
  qed
  have B2: "\<forall>i<length (Qs e). os ! i = (if i \<in> set (j # js) then fst (Q_new B grads e i) else Q_optimizers e ! i)"
  proof (intro allI impI)
    fix i assume i: "i < length (Qs e)"
    show "os ! i = (if i \<in> set (j # js) then fst (Q_new B grads e i) else Q_optimizers e ! i)"
    proof (cases "i = j")
      case True
      with o i len1 jn have "os ! i = Q_optimizers e1 ! j" by simp
      with True j Cons.prems(2) show ?thesis by (simp add: e1_def)
    next
      case False
      with o i len1 same [OF False] show ?thesis by (simp add: e1_def)
    qed
  qed
  have L: "length qs = length (Qs e)" "length os = length (Qs e)"
    using lq lo len1 by simp_all
  show ?case
    by (intro exI [of _ qs] exI [of _ os] conjI A B1 B2 L)
qed

lemma Q_loop_all:
  assumes "well_formed e"
  shows "Q_loop B grads [0..<Q_num (args e)] e =
           Inr (e\<lparr>Qs := Q_updated B grads e, Q_optimizers := Q_optimizers_updated B grads e\<rparr>)"
proof -
  have len: "length (Qs e) = Q_num (args e)" "length (Q_optimizers e) = length (Qs e)"
    using assms by (simp_all add: well_formed_def)
  have "\<forall>i\<in>set [0..<Q_num (args e)]. i < length (Qs e)"
    by (simp add: len)
  from Q_loop_result [OF this len(2), of B grads]
  obtain qs os where r: "Q_loop B grads [0..<Q_num (args e)] e = Inr (e\<lparr>Qs := qs, Q_optimizers := os\<rparr>)"
    and lq: "length qs = length (Qs e)" and lo: "length os = length (Qs e)"
    and q: "\<forall>i<length (Qs e). qs ! i = (if i \<in> set [0..<Q_num (args e)] then snd (Q_new B grads e i) else Qs e ! i)"
    and o: "\<forall>i<length (Qs e). os ! i = (if i \<in> set [0..<Q_num (args e)] then fst (Q_new B grads e i) else Q_optimizers e ! i)"
    by auto
  have "qs = Q_updated B grads e"
    by (rule nth_equalityI) (simp_all add: Q_updated_def lq q len)
  moreover have "os = Q_optimizers_updated B grads e"
    by (rule nth_equalityI) (simp_all add: Q_optimizers_updated_def lo o len)
  ultimately show ?thesis
    using r by simp
qed

lemma same_shapes_optimizer:
  assumes "shape_preserving B"
  shows "same_shapes (snd (optimizer_apply_gradients B opt gs ws)) ws"
proof -
  let ?new = "map (\<lambda>(k, (g, v)). adam_var B opt k g v) (enumerate 0 (zip gs ws))"
  have "map length ?new = map length (take (length gs) ws)"
  proof (rule nth_equalityI)
    show "length (map length ?new) = length (map length (take (length gs) ws))"
      by (simp add: min.commute)
  next
    fix i assume "i < length (map length ?new)"
    then have i: "i < length gs" "i < length ws" by simp_all
    then show "map length ?new ! i = map length (take (length gs) ws) ! i"
      using assms by (simp add: nth_enumerate_eq shape_preserving_def)
  qed
  then have "map length (?new @ drop (length gs) ws) = map length (take (length gs) ws @ drop (length gs) ws)"
    by (simp only: map_append)
  then have "map length (?new @ drop (length gs) ws) = map length ws"
    by (simp only: append_take_drop_id)
  then show ?thesis
    by (simp only: optimizer_apply_gradients_def same_shapes_def snd_conv)
qed

lemma length_optimizer: "length (snd (optimizer_apply_gradients B opt gs ws)) = length ws"
  by (simp add: optimizer_apply_gradients_def)


lemma policy_gradi_start_total: "\<exists>g. policy_gradi_start e = Inr g"
  by (cases "Qs e") (simp_all add: policy_gradi_start_def models_def)

lemma policy_loop_result:
  assumes "well_formed e"
  shows "\<exists>po la lo. policy_loop B grads g [Q_num (args e)..<length (models e)] e =
           Inr (e\<lparr>policy := snd (optimizer_apply_gradients B (policy_optimizer e)
                                  (py_slice grads g (g + length (policy e))) (policy e)),
                  policy_optimizer := po, log_alpha := la, log_alpha_optimizer := lo\<rparr>) \<and>
           (case la of Trainable _ \<Rightarrow> lo \<noteq> None | Fixed _ \<Rightarrow> True)"
proof -
  define n where "n = Q_num (args e)"
  have len: "length (Qs e) = n" "length (Q_optimizers e) = n"
    using assms by (simp_all add: well_formed_def n_def)
  define P where "P = optimizer_apply_gradients B (policy_optimizer e)
                        (py_slice grads g (g + length (policy e))) (policy e)"
  define e2 where "e2 = e\<lparr>policy := snd P, policy_optimizer := fst P\<rparr>"
  have mp: "models e ! n = Net (policy e)" "optimizers e ! n = policy_optimizer e"
    using models_nth_policy [of e] optimizers_nth_policy [of e] len by simp_all
  have step: "policy_loop B grads g (n # rest) e =
                policy_loop B grads (g + length (policy e)) rest e2" for rest
    by (simp add: length_models length_optimizers len mp Let_def split_def P_def e2_def
        put_model_def put_optimizer_def)
  show ?thesis
  proof (cases "log_alpha e")
    case (Fixed c)
    then have idx: "[n..<length (models e)] = [n]"
      by (simp add: length_models len)
    have "policy_loop B grads g [n..<length (models e)] e = Inr e2"
      unfolding idx step by simp
    then show ?thesis
      unfolding e2_def P_def n_def
      by (intro exI [of _ "fst P"] exI [of _ "log_alpha e"] exI [of _ "log_alpha_optimizer e"])
         (simp add: P_def Fixed)
  next
    case (Trainable v)
    then obtain opt where opt: "log_alpha_optimizer e = Some opt"
      using assms by (auto simp: well_formed_def)
    define A where "A = optimizer_apply_gradients B opt
                          (py_slice grads (g + length (policy e)) (g + length (policy e) + 1)) [v]"
    have idx: "[n..<length (models e)] = [n, Suc n]"
      by (simp add: length_models len Trainable upt_rec)
    have m2: "models e2 ! Suc n = Variable v" "optimizers e2 ! Suc n = opt"
      by (simp_all add: models_def optimizers_def e2_def nth_append len Trainable opt)
    have l2: "length (models e2) = n + 2" "length (optimizers e2) = n + 2"
             "length (Qs e2) = n" "length (Q_optimizers e2) = n"
      by (simp_all add: length_models length_optimizers e2_def len Trainable opt)
    have "policy_loop B grads (g + length (policy e)) [Suc n] e2 =
            Inr (e2\<lparr>log_alpha := Trainable (hd (snd A)), log_alpha_optimizer := Some (fst A)\<rparr>)"
      by (simp add: l2 m2 Let_def split_def A_def put_model_def put_optimizer_def)
    then have "policy_loop B grads g [n..<length (models e)] e =
            Inr (e2\<lparr>log_alpha := Trainable (hd (snd A)), log_alpha_optimizer := Some (fst A)\<rparr>)"
      unfolding idx step by simp
    then show ?thesis
      unfolding n_def
      by (intro exI [of _ "fst P"] exI [of _ "Trainable (hd (snd A))"] exI [of _ "Some (fst A)"])
         (simp add: e2_def P_def)
  qed
qed

lemma wf_Q_loop:
  "well_formed e \<Longrightarrow> well_formed (e\<lparr>Qs := Q_updated B grads e, Q_optimizers := Q_optimizers_updated B grads e\<rparr>)"
  by (auto simp: well_formed_def Q_updated_def Q_optimizers_updated_def split: log_alpha.splits)

lemma apply_gradients_skip:
  assumes "well_formed e" "delay_update (args e) \<noteq> 0" "iteration mod delay_update (args e) \<noteq> 0"
  shows "apply_gradients B iteration grads e =
           Inr (e\<lparr>Qs := Q_updated B grads e, Q_optimizers := Q_optimizers_updated B grads e\<rparr>)"
  using assms(2,3) by (simp add: apply_gradients_def Q_loop_all [OF assms(1)])

lemma Q_updated_shapes:
  assumes "shape_preserving B" "list_all2 same_shapes (Q_targets e) (Qs e)"
  shows "list_all2 same_shapes (Q_targets e) (Q_updated B grads e)"
proof (rule list_all2_all_nthI)
  show "length (Q_targets e) = length (Q_updated B grads e)"
    using assms(2) by (simp add: Q_updated_def list_all2_lengthD)
next
  fix i assume "i < length (Q_targets e)"
  then have i: "i < length (Qs e)"
    using assms(2) by (simp add: list_all2_lengthD)
  have "same_shapes (Q_targets e ! i) (Qs e ! i)"
    using assms(2) i by (simp add: list_all2_conv_all_nth)
  moreover have "same_shapes (Qs e ! i) (Q_updated B grads e ! i)"
    using i same_shapes_optimizer [OF assms(1)]
    by (simp add: Q_updated_def Q_new_def same_shapes_sym)
  ultimately show "same_shapes (Q_targets e ! i) (Q_updated B grads e ! i)"
    by (rule same_shapes_trans)
qed

lemma apply_gradients_update:
  assumes "well_formed e" "shapes_ok e" "shape_preserving B"
    and "delay_update (args e) \<noteq> 0" "iteration mod delay_update (args e) = 0"
  shows "\<exists>p po la lo. apply_gradients B iteration grads e =
           Inr (e\<lparr>Qs := Q_updated B grads e,
                  Q_optimizers := Q_optimizers_updated B grads e,
                  policy := map2 (spec_polyak (tau (args e))) p (policy_target e),
                  policy_optimizer := po, log_alpha := la, log_alpha_optimizer := lo,
                  Q_targets := map2 (\<lambda>q x. map2 (spec_polyak (tau (args e))) q x)
                                 (Q_updated B grads e) (Q_targets e)\<rparr>) \<and>
           same_shapes p (policy e) \<and>
           (case la of Trainable _ \<Rightarrow> lo \<noteq> None | Fixed _ \<Rightarrow> True)"
proof -
  define e1 where "e1 = e\<lparr>Qs := Q_updated B grads e, Q_optimizers := Q_optimizers_updated B grads e\<rparr>"
  have q: "Q_loop B grads [0..<Q_num (args e)] e = Inr e1"
    unfolding e1_def using assms(1) by (rule Q_loop_all)
  have wf1: "well_formed e1"
    unfolding e1_def using assms(1) by (rule wf_Q_loop)
  obtain g where g: "policy_gradi_start e1 = Inr g"
    using policy_gradi_start_total by blast
  define p where "p = snd (optimizer_apply_gradients B (policy_optimizer e1)
                             (py_slice grads g (g + length (policy e1))) (policy e1))"
  from policy_loop_result [OF wf1, of B grads g]
  obtain po la lo where pl: "policy_loop B grads g [Q_num (args e1)..<length (models e1)] e1 =
      Inr (e1\<lparr>policy := p, policy_optimizer := po, log_alpha := la, log_alpha_optimizer := lo\<rparr>)"
    and lalo: "(case la of Trainable _ \<Rightarrow> lo \<noteq> None | Fixed _ \<Rightarrow> True)"
    unfolding p_def by blast
  define e2 where "e2 = e1\<lparr>policy := p, policy_optimizer := po, log_alpha := la, log_alpha_optimizer := lo\<rparr>"
  have sp: "same_shapes p (policy e)"
    unfolding p_def using same_shapes_optimizer [OF assms(3)] by (simp add: e1_def)
  moreover have "same_shapes (policy_target e) (policy e)"
    using assms(2) by (simp add: shapes_ok_def)
  ultimately have "same_shapes (policy_target e2) (policy e2)"
    by (simp add: e2_def e1_def same_shapes_def)
  from update_policy_target_result [OF this]
  have u: "update_policy_target e2 =
             Inr (e2\<lparr>policy := map2 (spec_polyak (tau (args e))) p (policy_target e)\<rparr>)"
    by (simp add: e2_def e1_def)
  define e3 where "e3 = e2\<lparr>policy := map2 (spec_polyak (tau (args e))) p (policy_target e)\<rparr>"
  have "list_all2 same_shapes (Q_targets e) (Q_updated B grads e)"
    using assms(3,2) by (simp add: Q_updated_shapes shapes_ok_def)
  then have "list_all2 same_shapes (Q_targets e3) (Qs e3)"
    by (simp add: e3_def e2_def e1_def)
  from update_Q_targets_result [OF this]
  have t: "update_Q_targets e3 =
             Inr (e3\<lparr>Q_targets := map2 (\<lambda>q x. map2 (spec_polyak (tau (args e))) q x)
                                      (Q_updated B grads e) (Q_targets e)\<rparr>)"
    by (simp add: e3_def e2_def e1_def)
  have a1: "args e1 = args e"
    by (simp add: e1_def)
  have "apply_gradients B iteration grads e =
          Inr (e3\<lparr>Q_targets := map2 (\<lambda>q x. map2 (spec_polyak (tau (args e))) q x)
                                      (Q_updated B grads e) (Q_targets e)\<rparr>)"
    using assms(4,5) u t
    by (simp add: apply_gradients_def q a1 g pl [unfolded a1] e2_def [symmetric] e3_def [symmetric])
  then show ?thesis
    using sp lalo
    by (intro exI [of _ p] exI [of _ po] exI [of _ la] exI [of _ lo])
       (simp add: e3_def e2_def e1_def)
qed

lemma same_shapes_blend_targets:
  assumes "list_all2 same_shapes ts qs"
  shows "list_all2 same_shapes (map2 (\<lambda>q x. map2 (spec_polyak t) q x) qs ts) qs"
  using assms
proof (induction ts qs rule: list_all2_induct)
  case Nil
  show ?case by simp
next
  case (Cons x ts q qs)
  have "same_shapes (map2 (spec_polyak t) q x) q"
    by (rule same_shapes_polyak [OF same_shapes_sym [OF Cons.hyps(1)]])
  with Cons.IH show ?case by simp
qed

lemma apply_gradients_preserves_invariants:
  assumes "well_formed e" "shapes_ok e" "shape_preserving B"
    and "apply_gradients B iteration grads e = Inr e'"
  shows "well_formed e' \<and> shapes_ok e'"
proof -
  have q: "Q_loop B grads [0..<Q_num (args e)] e =
             Inr (e\<lparr>Qs := Q_updated B grads e, Q_optimizers := Q_optimizers_updated B grads e\<rparr>)"
    using assms(1) by (rule Q_loop_all)
  have d: "delay_update (args e) \<noteq> 0"
    using assms(4) by (auto simp: apply_gradients_def q)
  have up: "list_all2 same_shapes (Q_targets e) (Q_updated B grads e)"
    using assms(2,3) by (simp add: Q_updated_shapes shapes_ok_def)
  have pt: "same_shapes (policy_target e) (policy e)"
    using assms(2) by (simp add: shapes_ok_def)
  show ?thesis
  proof (cases "iteration mod delay_update (args e) = 0")
    case False
    from apply_gradients_skip [OF assms(1) d False, of B grads] assms(4)
    have e': "e' = e\<lparr>Qs := Q_updated B grads e, Q_optimizers := Q_optimizers_updated B grads e\<rparr>"
      by simp
    show ?thesis
      unfolding e' using wf_Q_loop [OF assms(1), of B grads] up pt
      by (simp add: shapes_ok_def)
  next
    case True
    from apply_gradients_update [OF assms(1,2,3) d True, of grads] assms(4)
    obtain p po la lo where e': "e' = e\<lparr>Qs := Q_updated B grads e,
                  Q_optimizers := Q_optimizers_updated B grads e,
                  policy := map2 (spec_polyak (tau (args e))) p (policy_target e),
                  policy_optimizer := po, log_alpha := la, log_alpha_optimizer := lo,
                  Q_targets := map2 (\<lambda>q x. map2 (spec_polyak (tau (args e))) q x)
                                 (Q_updated B grads e) (Q_targets e)\<rparr>"
      and sp: "same_shapes p (policy e)"
      and lalo: "(case la of Trainable _ \<Rightarrow> lo \<noteq> None | Fixed _ \<Rightarrow> True)"
      by auto
    have w: "well_formed e'"
      using assms(1) lalo
      by (auto simp: e' well_formed_def Q_updated_def Q_optimizers_updated_def split: log_alpha.splits)
    have "same_shapes p (policy_target e)"
      using sp pt by (simp add: same_shapes_def)
    then have "same_shapes (map2 (spec_polyak (tau (args e))) p (policy_target e)) p"
      by (rule same_shapes_polyak)
    then have s1: "same_shapes (policy_target e') (policy e')"
      using sp pt by (simp add: e' same_shapes_def)
    have s2: "list_all2 same_shapes (Q_targets e') (Qs e')"
      using same_shapes_blend_targets [OF up] by (simp add: e')
    from w s1 s2 show ?thesis
      by (simp add: shapes_ok_def)
  qed
qed

subsection \<open>Construction\<close>

lemma shapes_MLPNet: "map length (MLPNet B i l u out name) = mlp_shapes B i l u out"
proof (rule nth_equalityI)
  show "length (map length (MLPNet B i l u out name)) = length (mlp_shapes B i l u out)"
    by (simp add: MLPNet_def)
next
  fix k assume "k < length (map length (MLPNet B i l u out name))"
  then have "k < length (mlp_shapes B i l u out)"
    by (simp add: MLPNet_def)
  then show "map length (MLPNet B i l u out name) ! k = mlp_shapes B i l u out ! k"
    by (simp add: MLPNet_def nth_enumerate_eq)
qed

lemma same_shapes_MLPNet: "same_shapes (MLPNet B i l u out name) (MLPNet B i l u out name')"
  by (simp add: same_shapes_def shapes_MLPNet)

lemma copy_targets_result:
  "list_all2 same_shapes qs ts \<Longrightarrow> copy_targets qs ts = Inr qs"
  by (induction qs ts rule: list_all2_induct) (simp_all add: net_set_weights_ok)

lemma init_result:
  assumes "init B obs_space act_space a = Inr e"
  shows "\<exists>od ad. e = constructed B od ad a"
proof -
  have c: "copy_targets (map (\<lambda>i. MLPNet B m 2 128 1 (''Q'' @ str i)) [0..<Q_num a])
             (map (\<lambda>i. MLPNet B m 2 128 1 (''Q_target'' @ str i)) [0..<Q_num a])
         = Inr (map (\<lambda>i. MLPNet B m 2 128 1 (''Q'' @ str i)) [0..<Q_num a])" for m
    by (rule copy_targets_result) (simp add: list_all2_conv_all_nth same_shapes_MLPNet)
  from assms show ?thesis
    unfolding init_def c constructed_def
    by (auto split: space.splits sum.splits)
qed

lemma init_invariants:
  assumes "init B obs_space act_space a = Inr e"
  shows "well_formed e" "shapes_ok e" "Q_targets e = Qs e" "args e = a"
proof -
  from init_result [OF assms] obtain od ad where "e = constructed B od ad a"
    by blast
  note e = this [unfolded constructed_def]
  show "well_formed e"
    by (simp add: e well_formed_def split: log_alpha_arg.splits)
  show "shapes_ok e"
    by (simp add: e shapes_ok_def list_all2_conv_all_nth same_shapes_def shapes_MLPNet)
  show "Q_targets e = Qs e" "args e = a"
    by (simp_all add: e)
qed

lemma concat_slices: "concat (map (\<lambda>i. take L (drop (i * L) xs)) [0..<n]) = take (L * n) xs"
proof (induction n)
  case 0
  show ?case by simp
next
  case (Suc n)
  have "take (L * n + L) xs = take (L * n) xs @ take L (drop (L * n) xs)"
    by (rule take_add)
  with Suc show ?case
    by (simp add: mult.commute add.commute)
qed

lemma Q_grad_slice_eq: "Q_grad_slice grads i L = take L (drop (i * L) grads)"
  by (simp add: Q_grad_slice_def py_slice_def)

lemma slice_ranges_disjoint:
  fixes L :: nat
  assumes "i \<noteq> j"
  shows "{i * L..<(i + 1) * L} \<inter> {j * L..<(j + 1) * L} = {}"
proof -
  have d: "{a * L..<(a + 1) * L} \<inter> {b * L..<(b + 1) * L} = {}" if "a < b" for a b :: nat
  proof -
    from that have "a + 1 \<le> b" by simp
    then have "(a + 1) * L \<le> b * L" by (rule mult_le_mono1)
    then show ?thesis by auto
  qed
  from assms consider "i < j" | "j < i" by linarith
  then show ?thesis
  proof cases
    case 1
    then show ?thesis by (rule d)
  next
    case 2
    then show ?thesis using d [of j i] by (simp add: Int_commute)
  qed
qed

lemma slice_ranges_cover: "(\<Union>i<n. {i * L..<(i + 1) * L}) = {0..<L * n}" for L :: nat
proof (induction n)
  case 0
  show ?case by simp
next
  case (Suc n)
  have "n * L \<le> n * L + L" by simp
  then have "{0..<n * L} \<union> {n * L..<n * L + L} = {0..<n * L + L}"
    by (simp add: ivl_disj_un_two(3))
  with Suc show ?case
    by (simp add: lessThan_Suc mult.commute add.commute Un_commute)
qed

lemma length_MLPNet: "length (MLPNet B i l u out name) = length (mlp_shapes B i l u out)"
  by (simp add: MLPNet_def)

subsection \<open>Snapshot and restore, step by step\<close>



lemma nth_map2: "i < length xs \<Longrightarrow> i < length ys \<Longrightarrow> map2 f xs ys ! i = f (xs ! i) (ys ! i)"
  by simp

subsection \<open>The example instance\<close>

lemma demo_well_formed: "well_formed demo_ensemble"
  by (simp add: well_formed_def demo_ensemble_def demo_args_def)

lemma demo_shapes_ok: "shapes_ok demo_ensemble"
  by (simp add: shapes_ok_def same_shapes_def demo_ensemble_def)

lemma demo_shape_preserving: "shape_preserving demo_backend"
  by (simp add: shape_preserving_def demo_backend_def)

lemma PolicyWithValue_guard_is_partial:
  "PolicyWithValue_compute_neglogp demo_backend [[NaN], [Fin 0]]
      \<lparr>cols = 1, rows = [[Fin 0]]\<rparr> \<lparr>cols = 1, rows = [[Fin 0]]\<rparr> = Inl AssertionError"
  "PolicyWithValue_compute_neglogp demo_backend [[Fin 0], [NaN]]
      \<lparr>cols = 1, rows = [[Fin 0]]\<rparr> \<lparr>cols = 1, rows = [[Fin 0]]\<rparr> = Inr [NaN]"
  "PolicyWithValue_compute_neglogp demo_backend [[PInf], [Fin 0]]
      \<lparr>cols = 1, rows = [[Fin 0]]\<rparr> \<lparr>cols = 1, rows = [[Fin 0]]\<rparr> = Inr [PInf]"
  by (simp_all add: PolicyWithValue_compute_neglogp_def demo_backend_def GuassianDistribution_def
      split2_def neglogp_def bcast2_def bcast1_def bdim_def bidx_def tmap_def reduce_sum_def
      fsum_def fsub_def fsquare_def)

section \<open>The claims\<close>

text \<open>
  Claim C1. On every ensemble whose policy and policy-target networks have the same
  shapes (as the constructor builds them), \<open>update_policy_target\<close> returns normally, computes
  the element-wise convex combination \<open>tau * policy + (1 - tau) * policy_target\<close> and writes
  it onto the policy group itself; the policy-target group and every other field keep their
  values.
\<close>

theorem update_policy_target_blends_policy:
  assumes "same_shapes (policy_target e) (policy e)"
  shows "\<exists>e'. update_policy_target e = Inr e' \<and>
              policy e' = map2 (spec_polyak (tau (args e))) (policy e) (policy_target e) \<and>
              policy_target e' = policy_target e \<and>
              e' = e\<lparr>policy := policy e'\<rparr>"
  by (simp add: update_policy_target_result [OF assms])

text \<open>The theorem at a concrete input.\<close>

theorem update_policy_target_blends_policy_witness:
  "same_shapes (policy_target demo_ensemble) (policy demo_ensemble) \<and>
   (\<exists>e'. update_policy_target demo_ensemble = Inr e' \<and> policy e' = [[Fin 2]] \<and>
         policy_target e' = [[Fin 0]])"
  using update_policy_target_blends_policy [of demo_ensemble]
  by (auto simp: demo_ensemble_def demo_args_def same_shapes_def spec_polyak_def fsub_def)




text \<open>
  Claim C3, evaluated on the code. The constructor builds \<open>policy_target\<close> as a
  network of its own and never copies the policy's parameters into it, while each Q target
  receives the parameters of its Q group. With initial values that differ between the two
  networks, the policy target differs from the policy after construction.
\<close>

theorem policy_target_initialised_independently:
  "(case init demo_backend (Box [1]) (Box [1]) demo_args of
      Inl err \<Rightarrow> False
    | Inr e \<Rightarrow> policy e = [[Fin 0], [Fin 0]] \<and> policy_target e = [[Fin 1], [Fin 1]] \<and>
               Q_targets e = Qs e)"
  by (simp add: init_def MLPNet_def demo_backend_def demo_args_def net_set_weights_def
      enumerate_eq_zip upt_rec [of 0] upt_rec [of 1] upt_rec [of "Suc 0"] str.simps [of 0])

text \<open>
  Claim C4. On a well-formed ensemble, when \<open>iteration mod delay_update\<close> is not 0,
  \<open>apply_gradients\<close> returns normally and applies only the Q-group gradient slices: the
  policy group, the policy-target group, every Q-target group and \<open>log_alpha\<close> hold the same
  values as before the call, and Q group \<open>i\<close> is the result of its optimizer on its slice.
\<close>

theorem apply_gradients_delayed_frame:
  assumes "well_formed e" "delay_update (args e) \<noteq> 0" "iteration mod delay_update (args e) \<noteq> 0"
  shows "\<exists>e'. apply_gradients B iteration grads e = Inr e' \<and>
              policy e' = policy e \<and> policy_target e' = policy_target e \<and>
              Q_targets e' = Q_targets e \<and> log_alpha e' = log_alpha e \<and>
              (\<forall>i<Q_num (args e).
                 Qs e' ! i = snd (optimizer_apply_gradients B (Q_optimizers e ! i)
                                    (Q_grad_slice grads i (length (Qs e ! i))) (Qs e ! i)))"
proof -
  have "length (Qs e) = Q_num (args e)"
    using assms(1) by (simp add: well_formed_def)
  then show ?thesis
    by (simp add: apply_gradients_skip [OF assms] Q_updated_def Q_new_def)
qed

text \<open>The theorem at a concrete input.\<close>

theorem apply_gradients_delayed_frame_witness:
  "well_formed demo_ensemble \<and> delay_update (args demo_ensemble) \<noteq> 0 \<and>
   1 mod delay_update (args demo_ensemble) \<noteq> 0 \<and>
   (\<exists>e'. apply_gradients demo_backend 1 [[Fin 1], [Fin 1], [Fin 1]] demo_ensemble = Inr e' \<and>
         policy e' = [[Fin 4]] \<and> policy_target e' = [[Fin 0]] \<and>
         Q_targets e' = [[[Fin 1], [Fin 4]]] \<and> Qs e' ! 0 = [[Fin 0], [Fin 1]])"
  using apply_gradients_delayed_frame [of demo_ensemble 1 demo_backend "[[Fin 1], [Fin 1], [Fin 1]]"]
    demo_well_formed
  by (auto simp: demo_ensemble_def demo_args_def demo_backend_def optimizer_apply_gradients_def
      Q_grad_slice_def py_slice_def fsub_def fsum_def enumerate_eq_zip)

text \<open>
  Claim C5. On a well-formed ensemble, when \<open>iteration mod delay_update\<close> is 0,
  \<open>apply_gradients\<close> returns normally, and afterwards every Q-target group equals, element
  by element, \<open>tau\<close> times the corresponding Q group after its gradient step plus
  \<open>1 - tau\<close> times the Q-target group before the call.
\<close>

theorem apply_gradients_targets_track_updated_Qs:
  assumes "well_formed e" "shapes_ok e" "shape_preserving B"
    and "delay_update (args e) \<noteq> 0" "iteration mod delay_update (args e) = 0"
  shows "\<exists>e'. apply_gradients B iteration grads e = Inr e' \<and>
              (\<forall>i<Q_num (args e).
                 Qs e' ! i = snd (optimizer_apply_gradients B (Q_optimizers e ! i)
                                    (Q_grad_slice grads i (length (Qs e ! i))) (Qs e ! i)) \<and>
                 Q_targets e' ! i = map2 (spec_polyak (tau (args e))) (Qs e' ! i) (Q_targets e ! i))"
proof -
  have len: "length (Qs e) = Q_num (args e)" "length (Q_targets e) = Q_num (args e)"
    using assms(1,2) by (auto simp: well_formed_def shapes_ok_def dest: list_all2_lengthD)
  from apply_gradients_update [OF assms, of grads]
  obtain e' where e': "apply_gradients B iteration grads e = Inr e'"
    and q: "Qs e' = Q_updated B grads e"
    and t: "Q_targets e' = map2 (\<lambda>q x. map2 (spec_polyak (tau (args e))) q x)
                             (Q_updated B grads e) (Q_targets e)"
    by auto
  have "Qs e' ! i = snd (optimizer_apply_gradients B (Q_optimizers e ! i)
                                    (Q_grad_slice grads i (length (Qs e ! i))) (Qs e ! i)) \<and>
        Q_targets e' ! i = map2 (spec_polyak (tau (args e))) (Qs e' ! i) (Q_targets e ! i)"
    if "i < Q_num (args e)" for i
    using that len by (simp add: q t Q_updated_def Q_new_def)
  with e' show ?thesis by blast
qed

text \<open>The theorem at a concrete input.\<close>

theorem apply_gradients_targets_track_updated_Qs_witness:
  "well_formed demo_ensemble \<and> shapes_ok demo_ensemble \<and> shape_preserving demo_backend \<and>
   delay_update (args demo_ensemble) \<noteq> 0 \<and> 0 mod delay_update (args demo_ensemble) = 0 \<and>
   (\<exists>e'. apply_gradients demo_backend 0 [[Fin 1], [Fin 1], [Fin 1]] demo_ensemble = Inr e' \<and>
         Qs e' ! 0 = [[Fin 0], [Fin 1]] \<and> Q_targets e' ! 0 = [[Fin (1 / 2)], [Fin (5 / 2)]])"
  using apply_gradients_targets_track_updated_Qs
          [of demo_ensemble demo_backend 0 "[[Fin 1], [Fin 1], [Fin 1]]"]
    demo_well_formed demo_shapes_ok demo_shape_preserving
  by (auto simp: demo_ensemble_def demo_args_def demo_backend_def optimizer_apply_gradients_def
      Q_grad_slice_def py_slice_def fsub_def fsum_def enumerate_eq_zip spec_polyak_def)




text \<open>
  Claim C7, evaluated on the code. \<open>PolicyWithQs.compute_neglogp\<close> has no check of
  the policy output: when that output contains NaN it returns normally, with a NaN result.
\<close>

theorem compute_neglogp_returns_nan:
  "compute_neglogp demo_backend (demo_ensemble\<lparr>policy := [[NaN], [Fin 0]]\<rparr>)
      \<lparr>cols = 1, rows = [[Fin 0]]\<rparr> \<lparr>cols = 1, rows = [[Fin 0]]\<rparr> = Inr [NaN]"
  by (simp add: compute_neglogp_def demo_backend_def demo_ensemble_def GuassianDistribution_def
      split2_def neglogp_def bcast2_def bcast1_def bdim_def bidx_def tmap_def reduce_sum_def
      fsum_def fsub_def fsquare_def)

text \<open>
  Claim C8. For every logits tensor of \<open>2 * D\<close> columns and every sample of the same
  batch size with \<open>D\<close> columns, \<open>neglogp\<close> returns, per batch element, the value of the
  formula \<open>0.5 * sum(((x - mean) / std)^2) + 0.5 * D * ln(2 pi) + sum(log_std)\<close>, where mean
  and log_std are the two halves of the logits row and std is \<open>exp(log_std)\<close>; on finite
  entries that value is the negative logarithm of the density of an independent
  multivariate Gaussian at the sample.
\<close>

theorem neglogp_is_gaussian_neg_log_density:
  assumes "is_tensor logits" "is_tensor x" "cols logits = 2 * D" "cols x = D"
    and "length (rows x) = length (rows logits)"
  shows "\<exists>d. GuassianDistribution logits = Inr d \<and>
      neglogp d x = Inr (map (\<lambda>i. spec_neglogp (take D (rows logits ! i))
                                   (drop D (rows logits ! i)) (rows x ! i))
                          [0..<length (rows logits)]) \<and>
      (all_finite logits \<and> all_finite x \<longrightarrow>
         (\<forall>i<length (rows logits).
            spec_neglogp (take D (rows logits ! i)) (drop D (rows logits ! i)) (rows x ! i)
              = Fin (- ln (\<Prod>j<D. gaussian_pdf (real_of (rows logits ! i ! j))
                                     (exp (real_of (rows logits ! i ! (D + j))))
                                     (real_of (rows x ! i ! j))))))"
proof -
  define n where "n = length (rows logits)"
  define g where "g = (\<lambda>i j. rows logits ! i ! j)"
  define h where "h = (\<lambda>i j. rows x ! i ! j)"
  have L: "logits = tab n (2 * D) g"
    using tensor_as_tab [OF assms(1)] assms(3) by (simp add: n_def g_def)
  have X: "x = tab n D h"
    using tensor_as_tab [OF assms(2)] assms(4,5) by (simp add: n_def h_def)
  let ?d = "\<lparr>mean = tab n D g, logstd = tab n D (\<lambda>i j. g i (D + j)),
             std = tmap fexp (tab n D (\<lambda>i j. g i (D + j)))\<rparr>"
  have G: "GuassianDistribution logits = Inr ?d"
    by (simp add: GuassianDistribution_def L split2_tab)
  have rowsL: "take D (rows logits ! i) = map (g i) [0..<D]"
              "drop D (rows logits ! i) = map (\<lambda>j. g i (D + j)) [0..<D]"
              "rows x ! i = map (h i) [0..<D]" if "i < n" for i
    using that by (simp_all add: L X tab_sel take_map drop_map upt_shift comp_def)
  have F: "spec_neglogp (take D (rows logits ! i)) (drop D (rows logits ! i)) (rows x ! i)
         = fadd (fadd (fmul (Fin 0.5)
                (fsum (map (\<lambda>j. fsquare (fdiv (fsub (h i j) (g i j)) (fexp (g i (D + j))))) [0..<D])))
              (Fin (0.5 * real D * ln (2 * pi))))
            (fsum (map (\<lambda>j. g i (D + j)) [0..<D]))" if "i < n" for i
    using that neglogp_formula_tab [where m = g and i = i and D = D and l = "\<lambda>i j. g i (D + j)" and x = h]
    by (simp only: rowsL)
  have N: "neglogp ?d x = Inr (map (\<lambda>i. spec_neglogp (take D (rows logits ! i))
                                   (drop D (rows logits ! i)) (rows x ! i)) [0..<n])"
  proof -
    have "map (\<lambda>i. spec_neglogp (take D (rows logits ! i)) (drop D (rows logits ! i)) (rows x ! i)) [0..<n]
        = map (\<lambda>i. fadd (fadd (fmul (Fin 0.5)
                (fsum (map (\<lambda>j. fsquare (fdiv (fsub (h i j) (g i j)) (fexp (g i (D + j))))) [0..<D])))
              (Fin (0.5 * real D * ln (2 * pi))))
            (fsum (map (\<lambda>j. g i (D + j)) [0..<D]))) [0..<n]"
      by (rule map_cong) (simp_all add: F)
    then show ?thesis
      by (simp only: X neglogp_tab)
  qed
  have fin: "spec_neglogp (take D (rows logits ! i)) (drop D (rows logits ! i)) (rows x ! i)
              = Fin (- ln (\<Prod>j<D. gaussian_pdf (real_of (rows logits ! i ! j))
                                     (exp (real_of (rows logits ! i ! (D + j))))
                                     (real_of (rows x ! i ! j))))"
    if af: "all_finite logits" "all_finite x" and i: "i < n" for i
  proof -
    have gF: "g i j = Fin (real_of (g i j))" if "j < 2 * D" for j
      using all_finite_nth [OF af(1) assms(1), of i j] i that assms(3) by (simp add: g_def n_def)
    have hF: "h i j = Fin (real_of (h i j))" if "j < D" for j
      using all_finite_nth [OF af(2) assms(2), of i j] i that assms(4,5) by (simp add: h_def n_def)
    have e1: "map (\<lambda>j. fsquare (fdiv (fsub (h i j) (g i j)) (fexp (g i (D + j))))) [0..<D]
      = map (\<lambda>j. fsquare (fdiv (fsub (Fin (real_of (h i j))) (Fin (real_of (g i j))))
                               (fexp (Fin (real_of (g i (D + j))))))) [0..<D]"
    proof (rule map_cong [OF refl])
      fix j assume "j \<in> set [0..<D]"
      then have j: "j < D" by simp
      have "g i j = Fin (real_of (g i j))" "g i (D + j) = Fin (real_of (g i (D + j)))"
        using j by (auto intro: gF)
      with hF [OF j]
      show "fsquare (fdiv (fsub (h i j) (g i j)) (fexp (g i (D + j))))
          = fsquare (fdiv (fsub (Fin (real_of (h i j))) (Fin (real_of (g i j))))
                               (fexp (Fin (real_of (g i (D + j))))))"
        by simp
    qed
    have e2: "map (\<lambda>j. g i (D + j)) [0..<D] = map (\<lambda>j. Fin (real_of (g i (D + j)))) [0..<D]"
    proof (rule map_cong [OF refl])
      fix j assume "j \<in> set [0..<D]"
      then have "D + j < 2 * D" by simp
      then show "g i (D + j) = Fin (real_of (g i (D + j)))" by (rule gF)
    qed
    show ?thesis
      unfolding F [OF i] e1 e2 formula_finite by (simp add: g_def h_def)
  qed
  from G N fin show ?thesis
    unfolding n_def by blast
qed

text \<open>The theorem at a concrete input.\<close>

theorem neglogp_is_gaussian_neg_log_density_witness:
  "is_tensor \<lparr>cols = 2, rows = [[Fin 0, Fin 0]]\<rparr> \<and> is_tensor \<lparr>cols = 1, rows = [[Fin 1]]\<rparr> \<and>
   all_finite \<lparr>cols = 2, rows = [[Fin 0, Fin 0]]\<rparr> \<and> all_finite \<lparr>cols = 1, rows = [[Fin 1]]\<rparr> \<and>
   (\<exists>d. GuassianDistribution \<lparr>cols = 2, rows = [[Fin 0, Fin 0]]\<rparr> = Inr d \<and>
        neglogp d \<lparr>cols = 1, rows = [[Fin 1]]\<rparr> = Inr [Fin (- ln (gaussian_pdf 0 1 1))])"
  using neglogp_is_gaussian_neg_log_density
          [of "\<lparr>cols = 2, rows = [[Fin 0, Fin 0]]\<rparr>" "\<lparr>cols = 1, rows = [[Fin 1]]\<rparr>" 1]
  by (auto simp: is_tensor_def all_finite_def)



text \<open>
  Claim C10. In an ensemble built by the constructor every Q group has the same
  number \<open>L\<close> of trainable tensors; hence the slices \<open>grads[i*L:(i+1)*L]\<close> taken by
  \<open>apply_gradients\<close> are pairwise disjoint, contiguous, and together cover exactly the first
  \<open>L * Q_num\<close> gradients, and the slicing for the policy and \<open>log_alpha\<close> starts at
  \<open>L * Q_num\<close>, computed from the first group's count.
\<close>

theorem Q_gradient_slices_tile:
  assumes "init B obs_space act_space a = Inr e"
  shows "\<exists>L. (\<forall>i<Q_num a. length (trainable_weights_of (models e ! i)) = L) \<and>
             (\<forall>grads. concat (map (\<lambda>i. Q_grad_slice grads i L) [0..<Q_num a]) = take (L * Q_num a) grads) \<and>
             (\<forall>i j. i \<noteq> j \<longrightarrow> {i * L..<(i + 1) * L} \<inter> {j * L..<(j + 1) * L} = {}) \<and>
             (\<Union>i<Q_num a. {i * L..<(i + 1) * L}) = {0..<L * Q_num a} \<and>
             policy_gradi_start e = Inr (L * Q_num a)"
proof -
  from init_result [OF assms] obtain od ad where e: "e = constructed B od ad a"
    by blast
  have q: "Qs e = map (\<lambda>i. MLPNet B (od + ad) 2 128 1 (''Q'' @ str i)) [0..<Q_num a]"
    and ar: "args e = a"
    by (simp_all add: e constructed_def)
  define L where "L = length (mlp_shapes B (od + ad) 2 128 1)"
  have 1: "\<forall>i<Q_num a. length (trainable_weights_of (models e ! i)) = L"
    by (simp add: models_nth_Q q length_MLPNet L_def)
  have 2: "\<forall>grads. concat (map (\<lambda>i. Q_grad_slice grads i L) [0..<Q_num a]) = take (L * Q_num a) grads"
    by (simp add: Q_grad_slice_eq concat_slices)
  have 3: "\<forall>i j. i \<noteq> j \<longrightarrow> {i * L..<(i + 1) * L} \<inter> {j * L..<(j + 1) * L} = {}"
    using slice_ranges_disjoint by blast
  have 5: "policy_gradi_start e = Inr (L * Q_num a)"
  proof (cases "Q_num a")
    case 0
    then show ?thesis
      by (simp add: policy_gradi_start_def models_def q ar)
  next
    case (Suc n)
    then have "[0..<Q_num a] = 0 # [Suc 0..<Q_num a]"
      by (simp add: upt_conv_Cons)
    then have "Qs e = MLPNet B (od + ad) 2 128 1 (''Q'' @ str 0) #
                 map (\<lambda>i. MLPNet B (od + ad) 2 128 1 (''Q'' @ str i)) [Suc 0..<Q_num a]"
      by (simp only: q list.map)
    then show ?thesis
      by (simp add: policy_gradi_start_def models_def ar length_MLPNet L_def)
  qed
  show ?thesis
    by (intro exI [of _ L] conjI 1 2 3 5 slice_ranges_cover)
qed

text \<open>The theorem at a concrete input.\<close>

theorem Q_gradient_slices_tile_witness:
  "\<exists>e L. init demo_backend (Box [1]) (Box [1]) demo_args = Inr e \<and>
     (\<forall>grads. concat (map (\<lambda>i. Q_grad_slice grads i L) [0..<Q_num demo_args]) =
               take (L * Q_num demo_args) grads) \<and>
     policy_gradi_start e = Inr (L * Q_num demo_args)"
proof -
  have h: "init demo_backend (Box [1]) (Box [1]) demo_args = Inr (constructed demo_backend 1 1 demo_args)"
    by (simp add: init_def constructed_def MLPNet_def demo_backend_def demo_args_def
        net_set_weights_def enumerate_eq_zip upt_rec [of 0] upt_rec [of 1] upt_rec [of "Suc 0"])
  from Q_gradient_slices_tile [OF h] obtain L where
    "\<forall>grads. concat (map (\<lambda>i. Q_grad_slice grads i L) [0..<Q_num demo_args]) =
               take (L * Q_num demo_args) grads"
    "policy_gradi_start (constructed demo_backend 1 1 demo_args) = Inr (L * Q_num demo_args)"
    by (elim exE conjE)
  with h show ?thesis
    by (intro exI [of _ "constructed demo_backend 1 1 demo_args"] exI [of _ L] conjI)
qed

end
